theory Spec2Isabelle
  imports Complex_Main "HOL-Library.Multiset"
begin

section \<open>Data model of main.go\<close>

text \<open>
  The records follow the structs of main.go. Field names carry a short prefix of their
  struct (\<open>ev\<close>, \<open>cp\<close>, \<open>cd\<close>, \<open>cc\<close>), since several structs share the names
  \<open>ContentID\<close>, \<open>CustomerID\<close> and \<open>InsertDate\<close>.

  Modelling conventions, used throughout:
  \<^item> a \<open>time.Time\<close> is the instant it denotes, an integer on the time line;
    \<open>t.After(u)\<close> is \<open>u < t\<close>;
  \<^item> identifiers (\<open>int\<close>, \<open>int64\<close>) are integers; they are only compared for equality;
  \<^item> a \<open>float64\<close> is the real number it denotes and its arithmetic is exact: the
    rounding of IEEE-754 operations, infinities and NaN are outside the model;
  \<^item> Go's \<open>int\<close> is unbounded here; lengths, loop counters and slice positions are
    natural numbers;
  \<^item> a Go map is a partial function; reading a missing key with \<open>m[k]\<close> gives the zero
    value, written out where the code does it.
\<close>

type_synonym time = int

record EventRow =
  ev_EventDataID :: int
  ev_EventID :: int
  ev_ContentID :: int
  ev_CustomerID :: int
  ev_EventTypeID :: int
  ev_EventDate :: time
  ev_Quantity :: int
  ev_InsertDate :: time

record ContentPriceRow =
  cp_ContentPriceID :: int
  cp_ContentID :: int
  cp_Price :: real
  cp_Currency :: string
  cp_InsertDate :: time

record CustomerDataRow =
  cd_CustomerChannelID :: int
  cd_CustomerID :: int
  cd_ChannelTypeID :: int
  cd_ChannelValue :: string
  cd_InsertDate :: time

record CustomerCA =
  cc_CustomerID :: int
  cc_Email :: string
  cc_CA :: real

record QuantileStats =
  MinCA :: real
  MaxCA :: real
  NbClients :: nat

section \<open>COMPUTE phase: latest record per key\<close>

text \<open>
  \<open>buildPriceMap\<close>: the first loop keeps one row per \<open>ContentID\<close> in the working map
  \<open>priceMap\<close>; a row replaces the stored one when the key is new (\<open>!ok\<close>) or when its
  \<open>InsertDate\<close> is after the stored row's. The second loop projects every kept row to its
  \<open>Price\<close>.
\<close>

fun priceMap_loop ::
  "(int \<rightharpoonup> ContentPriceRow) \<Rightarrow> ContentPriceRow list \<Rightarrow> (int \<rightharpoonup> ContentPriceRow)" where
  "priceMap_loop priceMap [] = priceMap"
| "priceMap_loop priceMap (p # prices) =
     priceMap_loop
       (case priceMap (cp_ContentID p) of
          None \<Rightarrow> priceMap(cp_ContentID p \<mapsto> p)
        | Some ex \<Rightarrow>
            if cp_InsertDate ex < cp_InsertDate p then priceMap(cp_ContentID p \<mapsto> p)
            else priceMap)
       prices"

definition latestPriceRows :: "ContentPriceRow list \<Rightarrow> (int \<rightharpoonup> ContentPriceRow)" where
  "latestPriceRows prices = priceMap_loop Map.empty prices"

definition buildPriceMap :: "ContentPriceRow list \<Rightarrow> (int \<rightharpoonup> real)" where
  "buildPriceMap prices = (\<lambda>k. map_option cp_Price (latestPriceRows prices k))"

text \<open>\<open>buildEmailMap\<close>: the same two loops over \<open>CustomerDataRow\<close>, keyed by \<open>CustomerID\<close>.\<close>

fun emailMap_loop ::
  "(int \<rightharpoonup> CustomerDataRow) \<Rightarrow> CustomerDataRow list \<Rightarrow> (int \<rightharpoonup> CustomerDataRow)" where
  "emailMap_loop m [] = m"
| "emailMap_loop m (r # cd) =
     emailMap_loop
       (case m (cd_CustomerID r) of
          None \<Rightarrow> m(cd_CustomerID r \<mapsto> r)
        | Some ex \<Rightarrow>
            if cd_InsertDate ex < cd_InsertDate r then m(cd_CustomerID r \<mapsto> r)
            else m)
       cd"

definition latestEmailRows :: "CustomerDataRow list \<Rightarrow> (int \<rightharpoonup> CustomerDataRow)" where
  "latestEmailRows cd = emailMap_loop Map.empty cd"

definition buildEmailMap :: "CustomerDataRow list \<Rightarrow> (int \<rightharpoonup> string)" where
  "buildEmailMap cd = (\<lambda>k. map_option cd_ChannelValue (latestEmailRows cd k))"

section \<open>COMPUTE phase: revenue per customer\<close>

text \<open>
  The loop of \<open>computeCA\<close> over the events, with its two maps as state: \<open>ca\<close>
  (CustomerID to revenue) and \<open>missingPrices\<close> (ContentID to the number of events skipped
  for want of a price). \<open>m[k] += x\<close> and \<open>m[k]++\<close> read the zero value for a key that is
  not in the map. Progress bar and log calls do not touch the two maps and are left out.
\<close>

fun computeCA_loop ::
  "(int \<rightharpoonup> real) \<Rightarrow> (int \<rightharpoonup> real) \<times> (int \<rightharpoonup> int) \<Rightarrow> EventRow list
    \<Rightarrow> (int \<rightharpoonup> real) \<times> (int \<rightharpoonup> int)" where
  "computeCA_loop priceMap (ca, missingPrices) [] = (ca, missingPrices)"
| "computeCA_loop priceMap (ca, missingPrices) (e # events) =
     (case priceMap (ev_ContentID e) of
        None \<Rightarrow>
          computeCA_loop priceMap
            (ca,
             missingPrices(ev_ContentID e \<mapsto>
               (case missingPrices (ev_ContentID e) of None \<Rightarrow> 0 | Some cnt \<Rightarrow> cnt) + 1))
            events
      | Some price \<Rightarrow>
          computeCA_loop priceMap
            (ca(ev_CustomerID e \<mapsto>
               (case ca (ev_CustomerID e) of None \<Rightarrow> 0 | Some v \<Rightarrow> v)
                 + price * real_of_int (ev_Quantity e)),
             missingPrices)
            events)"

definition computeCA :: "EventRow list \<Rightarrow> (int \<rightharpoonup> real) \<Rightarrow> (int \<rightharpoonup> real)" where
  "computeCA events priceMap = fst (computeCA_loop priceMap (Map.empty, Map.empty) events)"

text \<open>The map \<open>missingPrices\<close> as it stands after the loop, which \<open>computeCA\<close> logs.\<close>

definition missingPricesOf :: "EventRow list \<Rightarrow> (int \<rightharpoonup> real) \<Rightarrow> (int \<rightharpoonup> int)" where
  "missingPricesOf events priceMap = snd (computeCA_loop priceMap (Map.empty, Map.empty) events)"

section \<open>COMPUTE phase: quantiles\<close>

text \<open>
  A slice expression \<open>s[lo:hi]\<close> and an index expression \<open>s[i]\<close> panic out of range;
  the panic is a value of the model.
\<close>

datatype panic = IndexOutOfRange | SliceBoundsOutOfRange

definition slice :: "'a list \<Rightarrow> nat \<Rightarrow> nat \<Rightarrow> panic + 'a list" where
  "slice s lo hi =
     (if lo \<le> hi \<and> hi \<le> length s then Inr (take (hi - lo) (drop lo s))
      else Inl SliceBoundsOutOfRange)"

definition index :: "'a list \<Rightarrow> int \<Rightarrow> panic + 'a" where
  "index s i =
     (if 0 \<le> i \<and> i < int (length s) then Inr (s ! nat i) else Inl IndexOutOfRange)"

text \<open>\<open>math.Round\<close>: the nearest integer, halves away from zero.\<close>

definition mathRound :: "real \<Rightarrow> int" where
  "mathRound x = (if x < 0 then - \<lfloor>1 / 2 - x\<rfloor> else \<lfloor>x + 1 / 2\<rfloor>)"

text \<open>
  The loop \<open>for i := 0; i < qCount; i++\<close> of \<open>computeQuantiles\<close>, with the map
  \<open>qstats\<close> as state.
\<close>

function quantile_loop ::
  "CustomerCA list \<Rightarrow> nat \<Rightarrow> nat \<Rightarrow> nat \<Rightarrow> (nat \<rightharpoonup> QuantileStats)
    \<Rightarrow> panic + (nat \<rightharpoonup> QuantileStats)" where
  "quantile_loop sorted' qCount size' i qstats =
     (if i < qCount then
        (let n = length sorted'; start = i * size'; end' = start + size' in
         if start \<ge> n then
           quantile_loop sorted' qCount size' (i + 1)
             (qstats(i \<mapsto> \<lparr>MinCA = 0, MaxCA = 0, NbClients = 0\<rparr>))
         else
           (case slice sorted' start (if end' > n then n else end') of
              Inl err \<Rightarrow> Inl err
            | Inr bucket \<Rightarrow>
                (case index bucket (int (length bucket) - 1) of
                   Inl err \<Rightarrow> Inl err
                 | Inr lowest \<Rightarrow>
                     (case index bucket 0 of
                        Inl err \<Rightarrow> Inl err
                      | Inr highest \<Rightarrow>
                          quantile_loop sorted' qCount size' (i + 1)
                            (qstats(i \<mapsto> \<lparr>MinCA = cc_CA lowest, MaxCA = cc_CA highest,
                                          NbClients = length bucket\<rparr>))))))
      else Inr qstats)"
  by pat_completeness auto
termination
  by (relation "measure (\<lambda>(sorted', qCount, size', i, qstats). qCount - i)") auto

text \<open>
  \<open>computeQuantiles\<close> returns the pair \<open>(qstats, top)\<close>; \<open>None\<close> is Go's \<open>nil\<close> map and
  \<open>nil\<close> slice. \<open>qCount\<close> is \<open>int(math.Round(1.0 / quantile))\<close>, raised to 1 when it is
  not positive, and \<open>size\<close> is \<open>int(math.Ceil(float64(n) / float64(qCount)))\<close>; both
  quotients are exact here. A \<open>quantile\<close> of zero, whose quotient is infinite in Go, is
  not a value the properties below speak about.
\<close>

definition computeQuantiles ::
  "CustomerCA list \<Rightarrow> real
    \<Rightarrow> panic + ((nat \<rightharpoonup> QuantileStats) option \<times> CustomerCA list option)" where
  "computeQuantiles sorted' quantile =
     (let n = length sorted' in
      if n = 0 then Inr (None, None)
      else
        (let qCount0 = mathRound (1 / quantile);
             qCount = (if qCount0 \<le> 0 then 1 else qCount0);
             size' = nat \<lceil>real n / real_of_int qCount\<rceil>
         in case quantile_loop sorted' (nat qCount) size' 0 Map.empty of
              Inl err \<Rightarrow> Inl err
            | Inr qstats \<Rightarrow>
                (let topN = (if size' > n then n else size') in
                 case slice sorted' 0 topN of
                   Inl err \<Rightarrow> Inl err
                 | Inr top' \<Rightarrow> Inr (Some qstats, Some top'))))"

section \<open>EXPORT phase\<close>

text \<open>
  The sink is seen through the calls the exporter makes on it: \<open>db.Begin\<close>, \<open>tx.Exec\<close>
  with the rows of one batch, \<open>tx.Rollback\<close> and \<open>tx.Commit\<close>. A sink \<open>db\<close> answers a
  call, given the calls made before it, with an error or with none. The state of the
  exporter is the list of calls made so far. The text of the INSERT statement and the
  two-decimal formatting of the revenue belong to the \<open>Exec\<close> call and are not spelled
  out; \<open>Exec\<close> carries the table name and the rows.
\<close>

type_synonym batchRow = "int \<times> string \<times> real"

datatype sink_call = Begin | Exec string "batchRow list" | Rollback | Commit

type_synonym sink = "sink_call list \<Rightarrow> sink_call \<Rightarrow> string option"

definition batchSize :: nat where
  "batchSize = 500"

function export_loop ::
  "sink \<Rightarrow> string \<Rightarrow> batchRow list \<Rightarrow> nat \<Rightarrow> sink_call list
    \<Rightarrow> string option \<times> sink_call list" where
  "export_loop db tableName rows i calls =
     (if i < length rows then
        (let end' = (if i + batchSize > length rows then length rows else i + batchSize);
             sub = take (end' - i) (drop i rows)
         in case db calls Begin of
              Some err \<Rightarrow> (Some err, calls @ [Begin])
            | None \<Rightarrow>
                (case db (calls @ [Begin]) (Exec tableName sub) of
                   Some err \<Rightarrow> (Some err, calls @ [Begin, Exec tableName sub, Rollback])
                 | None \<Rightarrow>
                     (case db (calls @ [Begin, Exec tableName sub]) Commit of
                        Some err \<Rightarrow> (Some err, calls @ [Begin, Exec tableName sub, Commit])
                      | None \<Rightarrow>
                          export_loop db tableName rows (i + batchSize)
                            (calls @ [Begin, Exec tableName sub, Commit]))))
      else (None, calls))"
  by pat_completeness auto
termination
  by (relation "measure (\<lambda>(db, tableName, rows, i, calls). length rows - i)")
    (auto simp: batchSize_def)

definition exportTopCustomers ::
  "sink \<Rightarrow> string \<Rightarrow> CustomerCA list \<Rightarrow> sink_call list \<Rightarrow> string option \<times> sink_call list" where
  "exportTopCustomers db tableName top' calls =
     (if length top' = 0 then (None, calls)
      else export_loop db tableName
             (map (\<lambda>r. (cc_CustomerID r, cc_Email r, cc_CA r)) top') 0 calls)"

section \<open>Reference notions for the properties\<close>

text \<open>
  What one key sees of either loop: the stored row \<open>cur\<close> of that key, updated by the
  rows of that key in the order of the pass. \<open>ts\<close> reads the row's \<open>InsertDate\<close>.
\<close>

fun keep_latest :: "('r \<Rightarrow> time) \<Rightarrow> 'r option \<Rightarrow> 'r list \<Rightarrow> 'r option" where
  "keep_latest ts cur [] = cur"
| "keep_latest ts cur (r # rs) =
     keep_latest ts
       (case cur of
          None \<Rightarrow> Some r
        | Some ex \<Rightarrow> if ts ex < ts r then Some r else Some ex)
       rs"

text \<open>A row of the list is \<open>latest\<close> when no row of the list has a later timestamp.\<close>

definition latest_in :: "('r \<Rightarrow> time) \<Rightarrow> 'r list \<Rightarrow> 'r \<Rightarrow> bool" where
  "latest_in ts rs r = list_all (\<lambda>r'. ts r' \<le> ts r) rs"

text \<open>An event is priced when its \<open>ContentID\<close> has an entry in the price map; its
  amount is then \<open>price * float64(Quantity)\<close>.\<close>

definition priced :: "(int \<rightharpoonup> real) \<Rightarrow> EventRow \<Rightarrow> bool" where
  "priced priceMap e = (priceMap (ev_ContentID e) \<noteq> None)"

definition amount :: "(int \<rightharpoonup> real) \<Rightarrow> EventRow \<Rightarrow> real" where
  "amount priceMap e = the (priceMap (ev_ContentID e)) * real_of_int (ev_Quantity e)"

text \<open>
  The bucket layout in the words of the specification, to be compared with what
  \<open>computeQuantiles\<close> computes: the number of buckets \<open>K = round(1 / q)\<close>, at least 1;
  the bucket size \<open>S = ceil(N / K)\<close>; the members of bucket \<open>i\<close>, the ranked positions
  from \<open>i * S\<close> up to, not including, \<open>min((i + 1) * S, N)\<close>; and the summary of bucket
  \<open>i\<close>, all zero when \<open>i * S \<ge> N\<close>, else the revenue of its last and of its first member
  and the number of its members.
\<close>

definition spec_K :: "real \<Rightarrow> nat" where
  "spec_K q = nat (max 1 (round (1 / q)))"

definition spec_S :: "nat \<Rightarrow> real \<Rightarrow> nat" where
  "spec_S N q = nat \<lceil>real N / real (spec_K q)\<rceil>"

definition spec_members :: "CustomerCA list \<Rightarrow> nat \<Rightarrow> nat \<Rightarrow> CustomerCA list" where
  "spec_members ranked S i = map ((!) ranked) [i * S ..< min ((i + 1) * S) (length ranked)]"

definition spec_bucket :: "CustomerCA list \<Rightarrow> nat \<Rightarrow> nat \<Rightarrow> QuantileStats" where
  "spec_bucket ranked S i =
     (if i * S \<ge> length ranked then \<lparr>MinCA = 0, MaxCA = 0, NbClients = 0\<rparr>
      else \<lparr>MinCA = cc_CA (last (spec_members ranked S i)),
            MaxCA = cc_CA (hd (spec_members ranked S i)),
            NbClients = length (spec_members ranked S i)\<rparr>)"

section \<open>Properties of the latest-record resolver\<close>

lemma priceMap_loop_key:
  "priceMap_loop m ps k = keep_latest cp_InsertDate (m k) (filter (\<lambda>p. cp_ContentID p = k) ps)"
  by (induction ps arbitrary: m) (auto split: option.splits)

lemma emailMap_loop_key:
  "emailMap_loop m rs k = keep_latest cd_InsertDate (m k) (filter (\<lambda>r. cd_CustomerID r = k) rs)"
  by (induction rs arbitrary: m) (auto split: option.splits)

lemma keep_latest_Some:
  "keep_latest ts (Some ex) rs = find (latest_in ts (ex # rs)) (ex # rs)"
proof (induction rs arbitrary: ex)
  case Nil
  show ?case by (simp add: latest_in_def)
next
  case (Cons r rs)
  show ?case
  proof (cases "ts ex < ts r")
    case True
    have skip: "\<not> latest_in ts (ex # r # rs) ex"
      using True by (simp add: latest_in_def)
    have "find (latest_in ts (ex # r # rs)) (r # rs) = find (latest_in ts (r # rs)) (r # rs)"
      by (rule find_cong) (use True in \<open>auto simp: latest_in_def list_all_iff\<close>)
    with skip True Cons.IH [of r] show ?thesis by simp
  next
    case False
    show ?thesis
    proof (cases "latest_in ts (ex # rs) ex")
      case True
      with False have "latest_in ts (ex # r # rs) ex"
        by (simp add: latest_in_def)
      with True False Cons.IH [of ex] show ?thesis by simp
    next
      case nl: False
      then obtain r' where r': "r' \<in> set rs" "ts ex < ts r'"
        by (auto simp: latest_in_def list_all_iff)
      have n1: "\<not> latest_in ts (ex # r # rs) ex"
        using r' by (auto simp: latest_in_def list_all_iff intro!: bexI [of _ r'])
      have n2: "\<not> latest_in ts (ex # r # rs) r"
        using r' False by (auto simp: latest_in_def list_all_iff intro!: bexI [of _ r'])
      have "find (latest_in ts (ex # r # rs)) rs = find (latest_in ts (ex # rs)) rs"
      proof (rule find_cong)
        fix x assume "x \<in> set rs"
        show "latest_in ts (ex # r # rs) x = latest_in ts (ex # rs) x"
          using False by (auto simp: latest_in_def list_all_iff)
      qed simp
      with n1 n2 nl False Cons.IH [of ex] show ?thesis by simp
    qed
  qed
qed

lemma keep_latest_None: "keep_latest ts None rs = find (latest_in ts rs) rs"
  by (cases rs) (simp_all add: keep_latest_Some)

lemma find_filter: "find P (filter Q xs) = find (\<lambda>x. Q x \<and> P x) xs"
  by (induction xs) auto

lemma find_latest_Some:
  assumes "rs \<noteq> []"
  shows "\<exists>r. find (latest_in ts rs) rs = Some r"
proof -
  have fin: "finite (ts ` set rs)" and ne: "ts ` set rs \<noteq> {}"
    using assms by auto
  from Max_in [OF fin ne] obtain r where r: "r \<in> set rs" "ts r = Max (ts ` set rs)"
    by auto
  have "latest_in ts rs r"
    unfolding latest_in_def list_all_iff using r fin by auto
  with r(1) have "find (latest_in ts rs) rs \<noteq> None"
    by (auto simp: find_None_iff)
  then show ?thesis by auto
qed

lemma keep_latest_None_props:
  assumes "rs \<noteq> []"
  shows "\<exists>r\<in>set rs. keep_latest ts None rs = Some r \<and> ts r = Max (ts ` set rs)"
proof -
  from find_latest_Some [OF assms] obtain r where f: "find (latest_in ts rs) rs = Some r"
    by blast
  then have mem: "r \<in> set rs" and lt: "latest_in ts rs r"
    by (auto simp: find_Some_iff)
  have "ts r = Max (ts ` set rs)"
    using mem lt by (intro Max_eqI [symmetric]) (auto simp: latest_in_def list_all_iff)
  with f mem show ?thesis by (auto simp: keep_latest_None)
qed

lemma latestPriceRows_key:
  "latestPriceRows prices k = keep_latest cp_InsertDate None (filter (\<lambda>p. cp_ContentID p = k) prices)"
  by (simp add: latestPriceRows_def priceMap_loop_key)

lemma latestEmailRows_key:
  "latestEmailRows cd k = keep_latest cd_InsertDate None (filter (\<lambda>r. cd_CustomerID r = k) cd)"
  by (simp add: latestEmailRows_def emailMap_loop_key)

lemma keep_latest_key_props:
  assumes "k \<in> key ` set xs"
  shows "\<exists>r\<in>set xs. keep_latest ts None (filter (\<lambda>x. key x = k) xs) = Some r \<and> key r = k \<and>
           ts r = Max (set (map ts (filter (\<lambda>x. key x = k) xs)))"
proof -
  from assms have ne: "filter (\<lambda>x. key x = k) xs \<noteq> []"
    by (auto simp: filter_empty_conv)
  from keep_latest_None_props [OF ne, of ts] obtain r where
    r: "r \<in> set (filter (\<lambda>x. key x = k) xs)"
       "keep_latest ts None (filter (\<lambda>x. key x = k) xs) = Some r"
       "ts r = Max (ts ` set (filter (\<lambda>x. key x = k) xs))"
    by blast
  from r(3) have "ts r = Max (set (map ts (filter (\<lambda>x. key x = k) xs)))"
    by simp
  with r(1,2) show ?thesis by auto
qed

text \<open>
  Claim C1, as amended. The claim says that of two records of one key with equal
  timestamps the one processed later is kept. The loops replace the stored row only
  when the new row's \<open>InsertDate\<close> is strictly after it, so the row kept for a key is the
  first row, in the order of the pass, among the rows of that key that carry the key's
  latest timestamp: of records with equal latest timestamps the one processed first is
  kept. This holds for the rows kept by \<open>buildPriceMap\<close> (key \<open>ContentID\<close>) and by
  \<open>buildEmailMap\<close> (key \<open>CustomerID\<close>), whose results are the \<open>Price\<close> and the
  \<open>ChannelValue\<close> of the kept row.
\<close>

theorem first_latest_record_kept:
  "latestPriceRows prices k =
     find (\<lambda>p. cp_ContentID p = k \<and>
                latest_in cp_InsertDate (filter (\<lambda>p'. cp_ContentID p' = k) prices) p) prices
   \<and> buildPriceMap prices k = map_option cp_Price (latestPriceRows prices k)
   \<and> latestEmailRows cd c =
     find (\<lambda>r. cd_CustomerID r = c \<and>
                latest_in cd_InsertDate (filter (\<lambda>r'. cd_CustomerID r' = c) cd) r) cd
   \<and> buildEmailMap cd c = map_option cd_ChannelValue (latestEmailRows cd c)"
  by (simp add: latestPriceRows_key latestEmailRows_key keep_latest_None find_filter
      buildPriceMap_def buildEmailMap_def)

theorem first_latest_record_kept_witness:
  "latestPriceRows
     [\<lparr>cp_ContentPriceID = 1, cp_ContentID = 7, cp_Price = 10, cp_Currency = ''EUR'', cp_InsertDate = 100\<rparr>,
      \<lparr>cp_ContentPriceID = 2, cp_ContentID = 7, cp_Price = 20, cp_Currency = ''EUR'', cp_InsertDate = 100\<rparr>,
      \<lparr>cp_ContentPriceID = 3, cp_ContentID = 8, cp_Price = 30, cp_Currency = ''EUR'', cp_InsertDate = 200\<rparr>] 7
     = Some \<lparr>cp_ContentPriceID = 1, cp_ContentID = 7, cp_Price = 10, cp_Currency = ''EUR'', cp_InsertDate = 100\<rparr>
   \<and> latestEmailRows
     [\<lparr>cd_CustomerChannelID = 1, cd_CustomerID = 5, cd_ChannelTypeID = 1, cd_ChannelValue = ''first@example.com'', cd_InsertDate = 100\<rparr>,
      \<lparr>cd_CustomerChannelID = 2, cd_CustomerID = 5, cd_ChannelTypeID = 1, cd_ChannelValue = ''later@example.com'', cd_InsertDate = 100\<rparr>] 5
     = Some \<lparr>cd_CustomerChannelID = 1, cd_CustomerID = 5, cd_ChannelTypeID = 1, cd_ChannelValue = ''first@example.com'', cd_InsertDate = 100\<rparr>"
  using first_latest_record_kept [of
     "[\<lparr>cp_ContentPriceID = 1, cp_ContentID = 7, cp_Price = 10, cp_Currency = ''EUR'', cp_InsertDate = 100\<rparr>,
      \<lparr>cp_ContentPriceID = 2, cp_ContentID = 7, cp_Price = 20, cp_Currency = ''EUR'', cp_InsertDate = 100\<rparr>,
      \<lparr>cp_ContentPriceID = 3, cp_ContentID = 8, cp_Price = 30, cp_Currency = ''EUR'', cp_InsertDate = 200\<rparr>]" 7
     "[\<lparr>cd_CustomerChannelID = 1, cd_CustomerID = 5, cd_ChannelTypeID = 1, cd_ChannelValue = ''first@example.com'', cd_InsertDate = 100\<rparr>,
      \<lparr>cd_CustomerChannelID = 2, cd_CustomerID = 5, cd_ChannelTypeID = 1, cd_ChannelValue = ''later@example.com'', cd_InsertDate = 100\<rparr>]" 5]
  by (simp add: latest_in_def)

text \<open>
  Claim C1 as stated fails: two price rows of \<open>ContentID\<close> 7 with the same \<open>InsertDate\<close>
  resolve to the price of the first, 10, not of the second, 20; two contact rows of
  \<open>CustomerID\<close> 5 with the same \<open>InsertDate\<close> resolve to the first address.
\<close>

theorem later_tie_record_not_kept:
  "buildPriceMap
     [\<lparr>cp_ContentPriceID = 1, cp_ContentID = 7, cp_Price = 10, cp_Currency = ''EUR'', cp_InsertDate = 100\<rparr>,
      \<lparr>cp_ContentPriceID = 2, cp_ContentID = 7, cp_Price = 20, cp_Currency = ''EUR'', cp_InsertDate = 100\<rparr>] 7
     = Some 10
   \<and> buildPriceMap
     [\<lparr>cp_ContentPriceID = 1, cp_ContentID = 7, cp_Price = 10, cp_Currency = ''EUR'', cp_InsertDate = 100\<rparr>,
      \<lparr>cp_ContentPriceID = 2, cp_ContentID = 7, cp_Price = 20, cp_Currency = ''EUR'', cp_InsertDate = 100\<rparr>] 7
     \<noteq> Some 20
   \<and> buildEmailMap
     [\<lparr>cd_CustomerChannelID = 1, cd_CustomerID = 5, cd_ChannelTypeID = 1, cd_ChannelValue = ''first@example.com'', cd_InsertDate = 100\<rparr>,
      \<lparr>cd_CustomerChannelID = 2, cd_CustomerID = 5, cd_ChannelTypeID = 1, cd_ChannelValue = ''later@example.com'', cd_InsertDate = 100\<rparr>] 5
     = Some ''first@example.com''"
  by (simp add: buildPriceMap_def latestPriceRows_def buildEmailMap_def latestEmailRows_def)

text \<open>
  Claim C8. For every key that occurs in the input, the row kept for it is a row of the
  input with that key whose \<open>InsertDate\<close> is the maximum of the \<open>InsertDate\<close>s of the
  rows of that key, and the resolved value is that row's; and what is resolved for a key
  depends only on the rows of that key, in their order: two inputs with the same rows of
  key \<open>k\<close> resolve \<open>k\<close> alike, whatever rows of other keys they hold. Both for
  \<open>buildPriceMap\<close> and for \<open>buildEmailMap\<close>.
\<close>

theorem latest_wins:
  "(k \<in> cp_ContentID ` set prices \<longrightarrow>
      (\<exists>r\<in>set prices. latestPriceRows prices k = Some r \<and> cp_ContentID r = k \<and>
         cp_InsertDate r = Max (set (map cp_InsertDate (filter (\<lambda>p. cp_ContentID p = k) prices))) \<and>
         buildPriceMap prices k = Some (cp_Price r)))
   \<and> (filter (\<lambda>p. cp_ContentID p = k) prices' = filter (\<lambda>p. cp_ContentID p = k) prices \<longrightarrow>
         latestPriceRows prices' k = latestPriceRows prices k \<and>
         buildPriceMap prices' k = buildPriceMap prices k)
   \<and> (c \<in> cd_CustomerID ` set cd \<longrightarrow>
      (\<exists>r\<in>set cd. latestEmailRows cd c = Some r \<and> cd_CustomerID r = c \<and>
         cd_InsertDate r = Max (set (map cd_InsertDate (filter (\<lambda>x. cd_CustomerID x = c) cd))) \<and>
         buildEmailMap cd c = Some (cd_ChannelValue r)))
   \<and> (filter (\<lambda>r. cd_CustomerID r = c) cd' = filter (\<lambda>r. cd_CustomerID r = c) cd \<longrightarrow>
         latestEmailRows cd' c = latestEmailRows cd c \<and>
         buildEmailMap cd' c = buildEmailMap cd c)"
proof (intro conjI impI)
  assume "k \<in> cp_ContentID ` set prices"
  from keep_latest_key_props [OF this, of cp_InsertDate]
  show "\<exists>r\<in>set prices. latestPriceRows prices k = Some r \<and> cp_ContentID r = k \<and>
         cp_InsertDate r = Max (set (map cp_InsertDate (filter (\<lambda>p. cp_ContentID p = k) prices))) \<and>
         buildPriceMap prices k = Some (cp_Price r)"
    by (auto simp: latestPriceRows_key buildPriceMap_def)
next
  assume "c \<in> cd_CustomerID ` set cd"
  from keep_latest_key_props [OF this, of cd_InsertDate]
  show "\<exists>r\<in>set cd. latestEmailRows cd c = Some r \<and> cd_CustomerID r = c \<and>
         cd_InsertDate r = Max (set (map cd_InsertDate (filter (\<lambda>x. cd_CustomerID x = c) cd))) \<and>
         buildEmailMap cd c = Some (cd_ChannelValue r)"
    by (auto simp: latestEmailRows_key buildEmailMap_def)
qed (simp_all add: latestPriceRows_key latestEmailRows_key buildPriceMap_def buildEmailMap_def)

theorem latest_wins_witness:
  "(7::int) \<in> cp_ContentID ` set
     [\<lparr>cp_ContentPriceID = 1, cp_ContentID = 7, cp_Price = 10, cp_Currency = ''EUR'', cp_InsertDate = 100\<rparr>,
      \<lparr>cp_ContentPriceID = 2, cp_ContentID = 8, cp_Price = 30, cp_Currency = ''EUR'', cp_InsertDate = 300\<rparr>,
      \<lparr>cp_ContentPriceID = 3, cp_ContentID = 7, cp_Price = 15, cp_Currency = ''EUR'', cp_InsertDate = 200\<rparr>]
   \<and> filter (\<lambda>p. cp_ContentID p = 7)
     [\<lparr>cp_ContentPriceID = 1, cp_ContentID = 7, cp_Price = 10, cp_Currency = ''EUR'', cp_InsertDate = 100\<rparr>,
      \<lparr>cp_ContentPriceID = 3, cp_ContentID = 7, cp_Price = 15, cp_Currency = ''EUR'', cp_InsertDate = 200\<rparr>]
     = filter (\<lambda>p. cp_ContentID p = 7)
     [\<lparr>cp_ContentPriceID = 1, cp_ContentID = 7, cp_Price = 10, cp_Currency = ''EUR'', cp_InsertDate = 100\<rparr>,
      \<lparr>cp_ContentPriceID = 2, cp_ContentID = 8, cp_Price = 30, cp_Currency = ''EUR'', cp_InsertDate = 300\<rparr>,
      \<lparr>cp_ContentPriceID = 3, cp_ContentID = 7, cp_Price = 15, cp_Currency = ''EUR'', cp_InsertDate = 200\<rparr>]
   \<and> latestPriceRows
     [\<lparr>cp_ContentPriceID = 1, cp_ContentID = 7, cp_Price = 10, cp_Currency = ''EUR'', cp_InsertDate = 100\<rparr>,
      \<lparr>cp_ContentPriceID = 2, cp_ContentID = 8, cp_Price = 30, cp_Currency = ''EUR'', cp_InsertDate = 300\<rparr>,
      \<lparr>cp_ContentPriceID = 3, cp_ContentID = 7, cp_Price = 15, cp_Currency = ''EUR'', cp_InsertDate = 200\<rparr>] 7
     = Some \<lparr>cp_ContentPriceID = 3, cp_ContentID = 7, cp_Price = 15, cp_Currency = ''EUR'', cp_InsertDate = 200\<rparr>
   \<and> buildPriceMap
     [\<lparr>cp_ContentPriceID = 1, cp_ContentID = 7, cp_Price = 10, cp_Currency = ''EUR'', cp_InsertDate = 100\<rparr>,
      \<lparr>cp_ContentPriceID = 3, cp_ContentID = 7, cp_Price = 15, cp_Currency = ''EUR'', cp_InsertDate = 200\<rparr>] 7
     = buildPriceMap
     [\<lparr>cp_ContentPriceID = 1, cp_ContentID = 7, cp_Price = 10, cp_Currency = ''EUR'', cp_InsertDate = 100\<rparr>,
      \<lparr>cp_ContentPriceID = 2, cp_ContentID = 8, cp_Price = 30, cp_Currency = ''EUR'', cp_InsertDate = 300\<rparr>,
      \<lparr>cp_ContentPriceID = 3, cp_ContentID = 7, cp_Price = 15, cp_Currency = ''EUR'', cp_InsertDate = 200\<rparr>] 7
   \<and> (5::int) \<in> cd_CustomerID ` set
     [\<lparr>cd_CustomerChannelID = 1, cd_CustomerID = 5, cd_ChannelTypeID = 1, cd_ChannelValue = ''old@example.com'', cd_InsertDate = 100\<rparr>,
      \<lparr>cd_CustomerChannelID = 2, cd_CustomerID = 5, cd_ChannelTypeID = 1, cd_ChannelValue = ''new@example.com'', cd_InsertDate = 200\<rparr>,
      \<lparr>cd_CustomerChannelID = 3, cd_CustomerID = 6, cd_ChannelTypeID = 1, cd_ChannelValue = ''other@example.com'', cd_InsertDate = 300\<rparr>]
   \<and> filter (\<lambda>r. cd_CustomerID r = 5)
     [\<lparr>cd_CustomerChannelID = 1, cd_CustomerID = 5, cd_ChannelTypeID = 1, cd_ChannelValue = ''old@example.com'', cd_InsertDate = 100\<rparr>,
      \<lparr>cd_CustomerChannelID = 2, cd_CustomerID = 5, cd_ChannelTypeID = 1, cd_ChannelValue = ''new@example.com'', cd_InsertDate = 200\<rparr>]
     = filter (\<lambda>r. cd_CustomerID r = 5)
     [\<lparr>cd_CustomerChannelID = 1, cd_CustomerID = 5, cd_ChannelTypeID = 1, cd_ChannelValue = ''old@example.com'', cd_InsertDate = 100\<rparr>,
      \<lparr>cd_CustomerChannelID = 2, cd_CustomerID = 5, cd_ChannelTypeID = 1, cd_ChannelValue = ''new@example.com'', cd_InsertDate = 200\<rparr>,
      \<lparr>cd_CustomerChannelID = 3, cd_CustomerID = 6, cd_ChannelTypeID = 1, cd_ChannelValue = ''other@example.com'', cd_InsertDate = 300\<rparr>]
   \<and> buildEmailMap
     [\<lparr>cd_CustomerChannelID = 1, cd_CustomerID = 5, cd_ChannelTypeID = 1, cd_ChannelValue = ''old@example.com'', cd_InsertDate = 100\<rparr>,
      \<lparr>cd_CustomerChannelID = 2, cd_CustomerID = 5, cd_ChannelTypeID = 1, cd_ChannelValue = ''new@example.com'', cd_InsertDate = 200\<rparr>,
      \<lparr>cd_CustomerChannelID = 3, cd_CustomerID = 6, cd_ChannelTypeID = 1, cd_ChannelValue = ''other@example.com'', cd_InsertDate = 300\<rparr>] 5
     = Some ''new@example.com''
   \<and> buildEmailMap
     [\<lparr>cd_CustomerChannelID = 1, cd_CustomerID = 5, cd_ChannelTypeID = 1, cd_ChannelValue = ''old@example.com'', cd_InsertDate = 100\<rparr>,
      \<lparr>cd_CustomerChannelID = 2, cd_CustomerID = 5, cd_ChannelTypeID = 1, cd_ChannelValue = ''new@example.com'', cd_InsertDate = 200\<rparr>] 5
     = buildEmailMap
     [\<lparr>cd_CustomerChannelID = 1, cd_CustomerID = 5, cd_ChannelTypeID = 1, cd_ChannelValue = ''old@example.com'', cd_InsertDate = 100\<rparr>,
      \<lparr>cd_CustomerChannelID = 2, cd_CustomerID = 5, cd_ChannelTypeID = 1, cd_ChannelValue = ''new@example.com'', cd_InsertDate = 200\<rparr>,
      \<lparr>cd_CustomerChannelID = 3, cd_CustomerID = 6, cd_ChannelTypeID = 1, cd_ChannelValue = ''other@example.com'', cd_InsertDate = 300\<rparr>] 5"
  using latest_wins [of 7
     "[\<lparr>cp_ContentPriceID = 1, cp_ContentID = 7, cp_Price = 10, cp_Currency = ''EUR'', cp_InsertDate = 100\<rparr>,
      \<lparr>cp_ContentPriceID = 2, cp_ContentID = 8, cp_Price = 30, cp_Currency = ''EUR'', cp_InsertDate = 300\<rparr>,
      \<lparr>cp_ContentPriceID = 3, cp_ContentID = 7, cp_Price = 15, cp_Currency = ''EUR'', cp_InsertDate = 200\<rparr>]"
     "[\<lparr>cp_ContentPriceID = 1, cp_ContentID = 7, cp_Price = 10, cp_Currency = ''EUR'', cp_InsertDate = 100\<rparr>,
      \<lparr>cp_ContentPriceID = 3, cp_ContentID = 7, cp_Price = 15, cp_Currency = ''EUR'', cp_InsertDate = 200\<rparr>]"
     5
     "[\<lparr>cd_CustomerChannelID = 1, cd_CustomerID = 5, cd_ChannelTypeID = 1, cd_ChannelValue = ''old@example.com'', cd_InsertDate = 100\<rparr>,
      \<lparr>cd_CustomerChannelID = 2, cd_CustomerID = 5, cd_ChannelTypeID = 1, cd_ChannelValue = ''new@example.com'', cd_InsertDate = 200\<rparr>,
      \<lparr>cd_CustomerChannelID = 3, cd_CustomerID = 6, cd_ChannelTypeID = 1, cd_ChannelValue = ''other@example.com'', cd_InsertDate = 300\<rparr>]"
     "[\<lparr>cd_CustomerChannelID = 1, cd_CustomerID = 5, cd_ChannelTypeID = 1, cd_ChannelValue = ''old@example.com'', cd_InsertDate = 100\<rparr>,
      \<lparr>cd_CustomerChannelID = 2, cd_CustomerID = 5, cd_ChannelTypeID = 1, cd_ChannelValue = ''new@example.com'', cd_InsertDate = 200\<rparr>]"]
  by auto

section \<open>Properties of the revenue aggregator\<close>

lemma computeCA_loop_fst:
  "fst (computeCA_loop pm (ca, mp) es) c =
     (if filter (\<lambda>e. ev_CustomerID e = c \<and> priced pm e) es = [] then ca c
      else Some ((case ca c of None \<Rightarrow> 0 | Some v \<Rightarrow> v)
                 + sum_list (map (amount pm) (filter (\<lambda>e. ev_CustomerID e = c \<and> priced pm e) es))))"
proof (induction es arbitrary: ca mp)
  case Nil
  show ?case by simp
next
  case (Cons e es)
  show ?case
  proof (cases "pm (ev_ContentID e)")
    case None
    then show ?thesis by (simp add: Cons.IH priced_def)
  next
    case (Some p)
    then show ?thesis
      by (simp add: Cons.IH priced_def amount_def split: option.splits)
  qed
qed

lemma computeCA_loop_snd:
  "snd (computeCA_loop pm (ca, mp) es) k =
     (if filter (\<lambda>e. ev_ContentID e = k \<and> \<not> priced pm e) es = [] then mp k
      else Some ((case mp k of None \<Rightarrow> 0 | Some n \<Rightarrow> n)
                 + int (length (filter (\<lambda>e. ev_ContentID e = k \<and> \<not> priced pm e) es))))"
proof (induction es arbitrary: ca mp)
  case Nil
  show ?case by simp
next
  case (Cons e es)
  show ?case
  proof (cases "pm (ev_ContentID e)")
    case None
    then show ?thesis by (simp add: Cons.IH priced_def split: option.splits)
  next
    case (Some p)
    then show ?thesis by (simp add: Cons.IH priced_def)
  qed
qed

lemma computeCA_eq:
  "computeCA es pm c =
     (if filter (\<lambda>e. ev_CustomerID e = c \<and> priced pm e) es = [] then None
      else Some (sum_list (map (amount pm) (filter (\<lambda>e. ev_CustomerID e = c \<and> priced pm e) es))))"
  by (simp add: computeCA_def computeCA_loop_fst)

lemma missingPricesOf_eq:
  "missingPricesOf es pm k =
     (if filter (\<lambda>e. ev_ContentID e = k \<and> \<not> priced pm e) es = [] then None
      else Some (int (length (filter (\<lambda>e. ev_ContentID e = k \<and> \<not> priced pm e) es))))"
  by (simp add: missingPricesOf_def computeCA_loop_snd)







text \<open>
  Claim C7. An event whose \<open>ContentID\<close> has no entry in the price map leaves the result
  of \<open>computeCA\<close> as it is without that event (it adds nothing and creates no entry): the
  result is that of the priced events alone. A customer all of whose events are unpriced
  is not in the result. The skipped events are counted per \<open>ContentID\<close> in
  \<open>missingPrices\<close>: an unpriced \<open>ContentID\<close> that occurs is mapped to the number of events
  that carry it, every other \<open>ContentID\<close> is absent. \<open>computeCA\<close> has no error result.
\<close>

theorem aggregator_exclusion:
  "(priceMap (ev_ContentID e) = None \<longrightarrow>
      computeCA (xs @ e # ys) priceMap = computeCA (xs @ ys) priceMap)
   \<and> computeCA events priceMap =
       computeCA (filter (\<lambda>e. priceMap (ev_ContentID e) \<noteq> None) events) priceMap
   \<and> ((\<forall>e\<in>set events. ev_CustomerID e = c \<longrightarrow> priceMap (ev_ContentID e) = None) \<longrightarrow>
        computeCA events priceMap c = None)
   \<and> missingPricesOf events priceMap k =
       (if priceMap k = None \<and> (\<exists>e\<in>set events. ev_ContentID e = k)
        then Some (int (length (filter (\<lambda>e. ev_ContentID e = k) events)))
        else None)"
proof (intro conjI impI)
  assume "priceMap (ev_ContentID e) = None"
  then show "computeCA (xs @ e # ys) priceMap = computeCA (xs @ ys) priceMap"
    by (intro ext) (simp add: computeCA_eq priced_def)
next
  have "filter (\<lambda>e. ev_CustomerID e = c \<and> priced priceMap e)
          (filter (\<lambda>e. priceMap (ev_ContentID e) \<noteq> None) events)
        = filter (\<lambda>e. ev_CustomerID e = c \<and> priced priceMap e) events" for c
    by (induction events) (auto simp: priced_def)
  then show "computeCA events priceMap =
       computeCA (filter (\<lambda>e. priceMap (ev_ContentID e) \<noteq> None) events) priceMap"
    by (intro ext) (simp add: computeCA_eq)
next
  assume "\<forall>e\<in>set events. ev_CustomerID e = c \<longrightarrow> priceMap (ev_ContentID e) = None"
  then have "filter (\<lambda>e. ev_CustomerID e = c \<and> priced priceMap e) events = []"
    by (auto simp: filter_empty_conv priced_def)
  then show "computeCA events priceMap c = None"
    by (simp add: computeCA_eq)
next
  show "missingPricesOf events priceMap k =
       (if priceMap k = None \<and> (\<exists>e\<in>set events. ev_ContentID e = k)
        then Some (int (length (filter (\<lambda>e. ev_ContentID e = k) events)))
        else None)"
  proof (cases "priceMap k")
    case None
    then have "filter (\<lambda>e. ev_ContentID e = k \<and> \<not> priced priceMap e) events
               = filter (\<lambda>e. ev_ContentID e = k) events"
      by (intro filter_cong) (auto simp: priced_def)
    with None show ?thesis
      by (auto simp: missingPricesOf_eq filter_empty_conv)
  next
    case (Some p)
    then have "filter (\<lambda>e. ev_ContentID e = k \<and> \<not> priced priceMap e) events = []"
      by (auto simp: filter_empty_conv priced_def)
    with Some show ?thesis
      by (simp add: missingPricesOf_eq)
  qed
qed

theorem aggregator_exclusion_witness:
  "[10 \<mapsto> (10::real)] (99::int) = None
   \<and> computeCA
     [\<lparr>ev_EventDataID = 1, ev_EventID = 1, ev_ContentID = 10, ev_CustomerID = 100, ev_EventTypeID = 6, ev_EventDate = 0, ev_Quantity = 2, ev_InsertDate = 0\<rparr>,
      \<lparr>ev_EventDataID = 2, ev_EventID = 2, ev_ContentID = 99, ev_CustomerID = 100, ev_EventTypeID = 6, ev_EventDate = 0, ev_Quantity = 5, ev_InsertDate = 0\<rparr>,
      \<lparr>ev_EventDataID = 3, ev_EventID = 3, ev_ContentID = 99, ev_CustomerID = 102, ev_EventTypeID = 6, ev_EventDate = 0, ev_Quantity = 1, ev_InsertDate = 0\<rparr>]
     [10 \<mapsto> 10] 100 = Some 20
   \<and> computeCA
     [\<lparr>ev_EventDataID = 1, ev_EventID = 1, ev_ContentID = 10, ev_CustomerID = 100, ev_EventTypeID = 6, ev_EventDate = 0, ev_Quantity = 2, ev_InsertDate = 0\<rparr>,
      \<lparr>ev_EventDataID = 2, ev_EventID = 2, ev_ContentID = 99, ev_CustomerID = 100, ev_EventTypeID = 6, ev_EventDate = 0, ev_Quantity = 5, ev_InsertDate = 0\<rparr>,
      \<lparr>ev_EventDataID = 3, ev_EventID = 3, ev_ContentID = 99, ev_CustomerID = 102, ev_EventTypeID = 6, ev_EventDate = 0, ev_Quantity = 1, ev_InsertDate = 0\<rparr>]
     [10 \<mapsto> 10] 102 = None
   \<and> missingPricesOf
     [\<lparr>ev_EventDataID = 1, ev_EventID = 1, ev_ContentID = 10, ev_CustomerID = 100, ev_EventTypeID = 6, ev_EventDate = 0, ev_Quantity = 2, ev_InsertDate = 0\<rparr>,
      \<lparr>ev_EventDataID = 2, ev_EventID = 2, ev_ContentID = 99, ev_CustomerID = 100, ev_EventTypeID = 6, ev_EventDate = 0, ev_Quantity = 5, ev_InsertDate = 0\<rparr>,
      \<lparr>ev_EventDataID = 3, ev_EventID = 3, ev_ContentID = 99, ev_CustomerID = 102, ev_EventTypeID = 6, ev_EventDate = 0, ev_Quantity = 1, ev_InsertDate = 0\<rparr>]
     [10 \<mapsto> 10] 99 = Some 2"
  using aggregator_exclusion [of "[10 \<mapsto> 10]"
     "\<lparr>ev_EventDataID = 2, ev_EventID = 2, ev_ContentID = 99, ev_CustomerID = 100, ev_EventTypeID = 6, ev_EventDate = 0, ev_Quantity = 5, ev_InsertDate = 0\<rparr>"
     "[\<lparr>ev_EventDataID = 1, ev_EventID = 1, ev_ContentID = 10, ev_CustomerID = 100, ev_EventTypeID = 6, ev_EventDate = 0, ev_Quantity = 2, ev_InsertDate = 0\<rparr>]"
     "[\<lparr>ev_EventDataID = 3, ev_EventID = 3, ev_ContentID = 99, ev_CustomerID = 102, ev_EventTypeID = 6, ev_EventDate = 0, ev_Quantity = 1, ev_InsertDate = 0\<rparr>]"
     "[\<lparr>ev_EventDataID = 1, ev_EventID = 1, ev_ContentID = 10, ev_CustomerID = 100, ev_EventTypeID = 6, ev_EventDate = 0, ev_Quantity = 2, ev_InsertDate = 0\<rparr>,
      \<lparr>ev_EventDataID = 2, ev_EventID = 2, ev_ContentID = 99, ev_CustomerID = 100, ev_EventTypeID = 6, ev_EventDate = 0, ev_Quantity = 5, ev_InsertDate = 0\<rparr>,
      \<lparr>ev_EventDataID = 3, ev_EventID = 3, ev_ContentID = 99, ev_CustomerID = 102, ev_EventTypeID = 6, ev_EventDate = 0, ev_Quantity = 1, ev_InsertDate = 0\<rparr>]"
     102 99]
  by (simp add: computeCA_def)



section \<open>Properties of the quantile bucketer\<close>

lemma take_drop_nth:
  "b \<le> length s \<Longrightarrow> take (b - a) (drop a s) = map ((!) s) [a..<b]"
  by (rule nth_equalityI) auto

lemma slice_in_range:
  "lo \<le> hi \<Longrightarrow> hi \<le> length s \<Longrightarrow> slice s lo hi = Inr (map ((!) s) [lo..<hi])"
  by (simp add: slice_def take_drop_nth)

lemma index_last:
  "xs \<noteq> [] \<Longrightarrow> index xs (int (length xs) - 1) = Inr (last xs)"
  by (cases xs rule: rev_cases) (auto simp: index_def nth_append)

lemma index_first:
  "xs \<noteq> [] \<Longrightarrow> index xs 0 = Inr (hd xs)"
  by (cases xs) (auto simp: index_def)

lemma quantile_loop_step:
  assumes "0 < S" "i < qCount"
  shows "quantile_loop s qCount S i qstats =
         quantile_loop s qCount S (i + 1) (qstats(i \<mapsto> spec_bucket s S i))"
proof (cases "length s \<le> i * S")
  case True
  with assms show ?thesis
    by (subst quantile_loop.simps) (simp add: spec_bucket_def)
next
  case False
  let ?e = "min ((i + 1) * S) (length s)"
  have e: "(if length s < i * S + S then length s else i * S + S) = ?e"
    by simp
  have lt: "i * S < ?e" using False assms by (auto simp: min_def)
  have sl: "slice s (i * S) ?e = Inr (spec_members s S i)"
    using lt by (simp add: slice_in_range spec_members_def)
  have ne: "spec_members s S i \<noteq> []"
    using lt by (auto simp: spec_members_def min_def)
  have nle: "(length s \<le> i * S) = False" "(i < qCount) = True"
    using False assms(2) by simp_all
  show ?thesis
    by (subst quantile_loop.simps)
      (simp only: Let_def e sl index_last [OF ne] index_first [OF ne] spec_bucket_def
        if_True if_False sum.case nle)
qed

lemma quantile_loop_eq:
  assumes "0 < S"
  shows "quantile_loop s qCount S i qstats =
         Inr (\<lambda>j. if i \<le> j \<and> j < qCount then Some (spec_bucket s S j) else qstats j)"
proof (induction "qCount - i" arbitrary: i qstats)
  case 0
  then have "\<not> i < qCount" by simp
  then show ?case
    by (subst quantile_loop.simps) (auto intro!: ext)
next
  case (Suc d)
  then have lt: "i < qCount" and d: "d = qCount - (i + 1)" by simp_all
  have "quantile_loop s qCount S i qstats =
        quantile_loop s qCount S (i + 1) (qstats(i \<mapsto> spec_bucket s S i))"
    by (rule quantile_loop_step [OF assms lt])
  also have "\<dots> = Inr (\<lambda>j. if i + 1 \<le> j \<and> j < qCount then Some (spec_bucket s S j)
                          else (qstats(i \<mapsto> spec_bucket s S i)) j)"
    by (rule Suc.hyps(1) [OF d])
  also have "(\<lambda>j. if i + 1 \<le> j \<and> j < qCount then Some (spec_bucket s S j)
                   else (qstats(i \<mapsto> spec_bucket s S i)) j)
           = (\<lambda>j. if i \<le> j \<and> j < qCount then Some (spec_bucket s S j) else qstats j)"
    using lt by (intro ext) auto
  finally show ?case .
qed

lemma mathRound_clamp:
  "(if mathRound x \<le> 0 then 1 else mathRound x) = max 1 (round x)"
proof (cases "x < 0")
  case True
  then have "0 \<le> \<lfloor>1 / 2 - x\<rfloor>" and "\<lfloor>x + 1 / 2\<rfloor> \<le> 0"
    by (simp_all add: floor_le_iff)
  with True show ?thesis
    by (simp add: mathRound_def round_def)
next
  case False
  then show ?thesis
    by (auto simp: mathRound_def round_def)
qed

lemma spec_K_pos: "0 < spec_K q"
  by (simp add: spec_K_def)

lemma real_spec_K: "real_of_int (max 1 (round (1 / q))) = real (spec_K q)"
  by (simp add: spec_K_def)

lemma spec_S_pos: "0 < N \<Longrightarrow> 0 < spec_S N q"
  using spec_K_pos [of q] by (simp add: spec_S_def)

lemma spec_S_covers: "N \<le> spec_K q * spec_S N q"
proof -
  have "real N / real (spec_K q) \<le> real_of_int \<lceil>real N / real (spec_K q)\<rceil>"
    by (rule le_of_int_ceiling)
  also have "\<dots> = real (spec_S N q)"
    by (simp add: spec_S_def)
  finally have "real N \<le> real (spec_S N q) * real (spec_K q)"
    using spec_K_pos [of q] by (simp add: field_simps)
  then have "real N \<le> real (spec_K q * spec_S N q)"
    by (simp add: mult.commute)
  then show ?thesis
    by (simp only: of_nat_le_iff)
qed

lemma spec_S_le: "spec_S N q \<le> N"
proof -
  have "1 \<le> real (spec_K q)"
    using spec_K_pos [of q] by simp
  from mult_left_mono [OF this, of "real N"]
  have "real N \<le> real N * real (spec_K q)"
    by simp
  then have "real N / real (spec_K q) \<le> real N"
    using spec_K_pos [of q] by (simp add: pos_divide_le_eq)
  then have "\<lceil>real N / real (spec_K q)\<rceil> \<le> int N"
    by (simp add: ceiling_le_iff)
  then show ?thesis
    by (simp only: spec_S_def nat_le_iff)
qed

lemma computeQuantiles_eq:
  assumes "s \<noteq> []"
  shows "computeQuantiles s q =
         Inr (Some (\<lambda>j. if j < spec_K q then Some (spec_bucket s (spec_S (length s) q) j) else None),
              Some (take (spec_S (length s) q) s))"
proof -
  let ?N = "length s"
  have N: "0 < ?N" using assms by simp
  have K: "nat (if mathRound (1 / q) \<le> 0 then 1 else mathRound (1 / q)) = spec_K q"
    by (simp only: mathRound_clamp spec_K_def)
  have S: "nat \<lceil>real ?N / real_of_int (if mathRound (1 / q) \<le> 0 then 1 else mathRound (1 / q))\<rceil>
           = spec_S ?N q"
    by (simp only: mathRound_clamp real_spec_K spec_S_def)
  have loop: "quantile_loop s (spec_K q) (spec_S ?N q) 0 Map.empty =
        Inr (\<lambda>j. if j < spec_K q then Some (spec_bucket s (spec_S ?N q) j) else None)"
    using quantile_loop_eq [OF spec_S_pos [OF N]] by simp
  have top: "slice s 0 (if ?N < spec_S ?N q then ?N else spec_S ?N q) = Inr (take (spec_S ?N q) s)"
    using spec_S_le [of ?N q] by (simp add: slice_def)
  have n0: "(?N = 0) = False" using N by simp
  show ?thesis
    unfolding computeQuantiles_def
    by (simp only: Let_def n0 if_False K S loop top sum.case)
qed

lemma NbClients_spec_bucket:
  "NbClients (spec_bucket s S i) = min ((i + 1) * S) (length s) - min (i * S) (length s)"
  by (simp add: spec_bucket_def spec_members_def min_def)

lemma sum_NbClients:
  "(\<Sum>i<k. NbClients (spec_bucket s S i)) = min (k * S) (length s)"
proof (induction k)
  case 0
  show ?case by simp
next
  case (Suc k)
  have "min (k * S) (length s) \<le> min ((k + 1) * S) (length s)"
    by (simp add: min_def)
  with Suc show ?case
    by (simp add: NbClients_spec_bucket)
qed

lemma members_bounds:
  assumes "i * S < length s" "0 < S"
  shows "i * S < min ((i + 1) * S) (length s)"
  using assms by (auto simp: min_def)

lemma members_nonempty:
  assumes "i * S < length s" "0 < S"
  shows "[i * S ..< min ((i + 1) * S) (length s)] \<noteq> []"
  using assms by (auto simp: min_def)

lemma last_members:
  assumes "i * S < length s" "0 < S"
  shows "last (spec_members s S i) = s ! (min ((i + 1) * S) (length s) - 1)"
proof -
  have "last (spec_members s S i) = s ! last [i * S ..< min ((i + 1) * S) (length s)]"
    unfolding spec_members_def by (rule last_map [OF members_nonempty [OF assms]])
  also have "last [i * S ..< min ((i + 1) * S) (length s)] = min ((i + 1) * S) (length s) - 1"
    by (rule last_upt [OF members_bounds [OF assms]])
  finally show ?thesis .
qed

lemma hd_members:
  assumes "i * S < length s" "0 < S"
  shows "hd (spec_members s S i) = s ! (i * S)"
proof -
  have "hd (spec_members s S i) = s ! hd [i * S ..< min ((i + 1) * S) (length s)]"
    unfolding spec_members_def by (rule hd_map [OF members_nonempty [OF assms]])
  also have "hd [i * S ..< min ((i + 1) * S) (length s)] = i * S"
    by (rule hd_upt [OF members_bounds [OF assms]])
  finally show ?thesis .
qed




text \<open>
  Claim C4. For a non-empty input sorted by descending revenue and a quantile fraction
  \<open>0 < q \<le> 1\<close>, the \<open>NbClients\<close> of all buckets of the returned map add up to the size
  of the input, and whenever bucket \<open>i\<close> and bucket \<open>i + 1\<close> are both non-empty, the
  \<open>MinCA\<close> of bucket \<open>i\<close> is at least the \<open>MaxCA\<close> of bucket \<open>i + 1\<close>.
\<close>

theorem bucketer_coverage:
  assumes "ranked \<noteq> []" and "0 < q" and "q \<le> 1"
    and "sorted_wrt (\<lambda>a b. cc_CA b \<le> cc_CA a) ranked"
  shows "\<exists>qstats top'.
           computeQuantiles ranked q = Inr (Some qstats, Some top') \<and>
           finite (dom qstats) \<and>
           (\<Sum>i\<in>dom qstats. NbClients (the (qstats i))) = length ranked \<and>
           (\<forall>i a b. qstats i = Some a \<and> qstats (i + 1) = Some b \<and>
                     0 < NbClients a \<and> 0 < NbClients b \<longrightarrow> MaxCA b \<le> MinCA a)"
proof -
  let ?N = "length ranked"
  let ?S = "spec_S ?N q"
  let ?K = "spec_K q"
  let ?qstats = "\<lambda>j. if j < ?K then Some (spec_bucket ranked ?S j) else None"
  have S: "0 < ?S" using assms(1) by (simp add: spec_S_pos)
  have eq: "computeQuantiles ranked q = Inr (Some ?qstats, Some (take ?S ranked))"
    by (rule computeQuantiles_eq [OF assms(1)])
  have dom: "dom ?qstats = {..<?K}"
    by (auto simp: dom_def)
  have "(\<Sum>i\<in>dom ?qstats. NbClients (the (?qstats i))) = (\<Sum>i<?K. NbClients (spec_bucket ranked ?S i))"
    unfolding dom by (rule sum.cong) simp_all
  also have "\<dots> = min (?K * ?S) ?N"
    by (rule sum_NbClients)
  also have "\<dots> = ?N"
    using spec_S_covers [of ?N q] by simp
  finally have total: "(\<Sum>i\<in>dom ?qstats. NbClients (the (?qstats i))) = ?N" .
  have adj: "MaxCA b \<le> MinCA a"
    if h: "?qstats i = Some a \<and> ?qstats (i + 1) = Some b \<and> 0 < NbClients a \<and> 0 < NbClients b"
    for i a b
  proof -
    from h have a: "a = spec_bucket ranked ?S i" and b: "b = spec_bucket ranked ?S (i + 1)"
      by (auto split: if_splits)
    from h b have lt2: "(i + 1) * ?S < ?N"
      by (auto simp: spec_bucket_def split: if_splits)
    then have lt1: "i * ?S < ?N" by simp
    have mn: "MinCA a = cc_CA (ranked ! ((i + 1) * ?S - 1))"
      using lt1 lt2 last_members [OF lt1 S] by (simp add: a spec_bucket_def)
    have mx: "MaxCA b = cc_CA (ranked ! ((i + 1) * ?S))"
      using lt2 hd_members [OF lt2 S] by (simp add: b spec_bucket_def)
    have "(i + 1) * ?S - 1 < (i + 1) * ?S" using S by simp
    from sorted_wrt_nth_less [OF assms(4) this lt2] show ?thesis
      by (simp only: mn mx)
  qed
  have "finite (dom ?qstats)" unfolding dom by simp
  with eq total adj show ?thesis by blast
qed

theorem bucketer_coverage_witness:
  "sorted_wrt (\<lambda>a b. cc_CA b \<le> cc_CA a)
       [\<lparr>cc_CustomerID = 1, cc_Email = ''a@example.com'', cc_CA = 50\<rparr>,
        \<lparr>cc_CustomerID = 2, cc_Email = ''b@example.com'', cc_CA = 40\<rparr>,
        \<lparr>cc_CustomerID = 3, cc_Email = ''c@example.com'', cc_CA = 30\<rparr>,
        \<lparr>cc_CustomerID = 4, cc_Email = ''d@example.com'', cc_CA = 20\<rparr>,
        \<lparr>cc_CustomerID = 5, cc_Email = ''e@example.com'', cc_CA = 10\<rparr>]
   \<and> (\<exists>qstats top'.
     computeQuantiles
       [\<lparr>cc_CustomerID = 1, cc_Email = ''a@example.com'', cc_CA = 50\<rparr>,
        \<lparr>cc_CustomerID = 2, cc_Email = ''b@example.com'', cc_CA = 40\<rparr>,
        \<lparr>cc_CustomerID = 3, cc_Email = ''c@example.com'', cc_CA = 30\<rparr>,
        \<lparr>cc_CustomerID = 4, cc_Email = ''d@example.com'', cc_CA = 20\<rparr>,
        \<lparr>cc_CustomerID = 5, cc_Email = ''e@example.com'', cc_CA = 10\<rparr>] (1 / 4)
       = Inr (Some qstats, Some top') \<and>
     (\<Sum>i\<in>dom qstats. NbClients (the (qstats i))) = 5 \<and>
     (\<forall>i a b. qstats i = Some a \<and> qstats (i + 1) = Some b \<and>
               0 < NbClients a \<and> 0 < NbClients b \<longrightarrow> MaxCA b \<le> MinCA a))"
proof -
  let ?R = "[\<lparr>cc_CustomerID = 1, cc_Email = ''a@example.com'', cc_CA = 50\<rparr>,
        \<lparr>cc_CustomerID = 2, cc_Email = ''b@example.com'', cc_CA = 40\<rparr>,
        \<lparr>cc_CustomerID = 3, cc_Email = ''c@example.com'', cc_CA = 30\<rparr>,
        \<lparr>cc_CustomerID = 4, cc_Email = ''d@example.com'', cc_CA = 20\<rparr>,
        \<lparr>cc_CustomerID = 5, cc_Email = ''e@example.com'', cc_CA = 10\<rparr>]"
  have h: "?R \<noteq> []" "(0::real) < 1 / 4" "(1::real) / 4 \<le> 1"
    "sorted_wrt (\<lambda>a b. cc_CA b \<le> cc_CA a) ?R"
    by simp_all
  have n: "length ?R = 5"
    by simp
  from bucketer_coverage [OF h] h(4) show ?thesis
    unfolding n by blast
qed



section \<open>Properties of the exporter\<close>

text \<open>
  Claim C9. Exporting an empty top bucket returns no error and makes no call on the
  sink: the list of calls made is the one before the export, whatever the sink would
  have answered.
\<close>

theorem exporter_empty_noop:
  "exportTopCustomers db tableName [] calls = (None, calls)"
  by (simp add: exportTopCustomers_def)

theorem exporter_empty_noop_witness:
  "exportTopCustomers (\<lambda>calls c. Some ''sink unavailable'') ''test_export_20251004'' [] []
     = (None, [])"
  using exporter_empty_noop [of "\<lambda>calls c. Some ''sink unavailable''" "''test_export_20251004''" "[]"]
  by simp

end
